theory Spec2Isabelle
  imports Main
begin

section \<open>Data model of the combat handler\<close>

text \<open>
  The development embeds \<^verbatim>\<open>muddery/combat/base_combat_handler.py\<close>, class
  \<^verbatim>\<open>BaseCombatHandler\<close>. The handler keeps a dict \<^verbatim>\<open>characters\<close> from a character's
  \<^verbatim>\<open>dbref\<close> to the character object. Character objects are shared, mutable objects that
  live outside the handler, so the model keeps them in a store \<open>heap\<close> addressed by
  object references, and the dict holds references. A Python dict is an association list
  with distinct keys; iterating the dict reads the list from its head.
\<close>

type_synonym cref = nat

datatype finish_kind = Win | Lose | Draw | Escaped

record char_info =
  info_dbref :: nat
  info_name :: string
  info_team :: "nat option"
  info_max_hp :: int
  info_hp :: int
  info_icon :: "string option"

record appearance =
  app_desc :: string
  app_timeout :: int
  app_characters :: "char_info list"

text \<open>The payloads handed to \<^verbatim>\<open>character.msg\<close>.\<close>

datatype payload =
    Joined_combat
  | Combat_info appearance
  | Left_combat
  | Combat_finish finish_kind
  | Skill_result string

text \<open>
  A character as far as the handler uses it. \<open>team\<close> is what \<^verbatim>\<open>get_team()\<close> returns
  (\<open>None\<close> is Python's \<^verbatim>\<open>None\<close>), \<open>alive\<close> is \<^verbatim>\<open>is_alive()\<close>, \<open>combat_handler\<close> is
  \<^verbatim>\<open>ndb.combat_handler\<close> (the reference of the handler, or \<open>None\<close> when the attribute is
  absent), \<open>cmdset_combat\<close> counts the copies of \<^verbatim>\<open>settings.CMDSET_COMBAT\<close> on the
  character's command-set stack, \<open>msgs\<close> is everything sent with \<^verbatim>\<open>msg\<close>, oldest first,
  and \<open>status_shown\<close> counts the calls of \<^verbatim>\<open>show_status()\<close>.
\<close>

record character =
  dbref :: nat
  name :: string
  max_hp :: int
  hp :: int
  icon :: "string option"
  team :: "nat option"
  alive :: bool
  has_account :: bool
  combat_handler :: "nat option"
  cmdset_combat :: nat
  msgs :: "payload list"
  status_shown :: nat

text \<open>
  The object returned by \<^verbatim>\<open>reactor.callLater\<close>: it is active until it has been called or
  cancelled.
\<close>

record delayed_call =
  delay :: int
  called :: bool
  cancelled :: bool

text \<open>
  The handler and the world it acts on. \<open>self_ref\<close> is the identity of the script
  object, \<open>cancels\<close> counts the calls of \<^verbatim>\<open>timer.cancel()\<close> and \<open>stops\<close> the calls of
  \<^verbatim>\<open>self.stop()\<close>.
\<close>

record handler =
  self_ref :: nat
  desc :: string
  interval :: int
  persistent :: bool
  characters :: "(nat \<times> cref) list"
  finished :: bool
  timeout :: int
  timer :: "delayed_call option"
  heap :: "cref \<Rightarrow> character"
  cancels :: nat
  stops :: nat

datatype error = AssertionError

subsection \<open>Python dicts as association lists\<close>

text \<open>
  \<^verbatim>\<open>d[k] = v\<close> replaces the value of a key that is present and adds a key that is not.
  The handler runs on Python 2, which does not fix the order in which a dict is iterated:
  it is the order of the hash table, and storing a key may put it anywhere and move the
  others. The parameter \<open>arrange\<close> stands for that order: after a store the entries are
  read in the order \<open>arrange\<close> gives them. Nothing is known of it but that it rearranges
  (\<open>rearranges\<close> below), and the statements hold for every such order.
\<close>

fun dict_store :: "'k \<Rightarrow> 'v \<Rightarrow> ('k \<times> 'v) list \<Rightarrow> ('k \<times> 'v) list" where
  "dict_store k v [] = [(k, v)]"
| "dict_store k v ((k', v') # kvs) =
     (if k = k' then (k, v) # kvs else (k', v') # dict_store k v kvs)"

definition dict_set ::
  "(('k \<times> 'v) list \<Rightarrow> ('k \<times> 'v) list) \<Rightarrow> 'k \<Rightarrow> 'v \<Rightarrow> ('k \<times> 'v) list \<Rightarrow> ('k \<times> 'v) list" where
  "dict_set arrange k v kvs = arrange (dict_store k v kvs)"

definition rearranges :: "(('k \<times> 'v) list \<Rightarrow> ('k \<times> 'v) list) \<Rightarrow> bool" where
  "rearranges arrange \<longleftrightarrow>
     (\<forall>kvs. set (arrange kvs) = set kvs \<and> length (arrange kvs) = length kvs)"

definition dict_del :: "'k \<Rightarrow> ('k \<times> 'v) list \<Rightarrow> ('k \<times> 'v) list" where
  "dict_del k kvs = filter (\<lambda>kv. fst kv \<noteq> k) kvs"

definition dict_contains :: "'k \<Rightarrow> ('k \<times> 'v) list \<Rightarrow> bool" where
  "dict_contains k kvs \<longleftrightarrow> k \<in> set (map fst kvs)"

definition dict_values :: "('k \<times> 'v) list \<Rightarrow> 'v list" where
  "dict_values kvs = map snd kvs"

subsection \<open>Calls on a character\<close>

text \<open>
  Modelled from the spec: the character class is not part of the handler's source, so the
  methods the handler calls on a character follow the actor contract of the spec
  (section 6). \<^verbatim>\<open>setTeam\<close> and \<^verbatim>\<open>getTeam\<close> store and return the team id, \<^verbatim>\<open>isAlive\<close> and
  \<^verbatim>\<open>hasActiveSink\<close> are queries, \<^verbatim>\<open>send\<close> hands a payload to the character's sink and
  forgets it, \<^verbatim>\<open>enableCombatActions\<close> and \<^verbatim>\<open>disableCombatActions\<close> grant and revoke the
  combat action set, \<^verbatim>\<open>setSessionBackRef\<close> sets or clears the back-reference, and
  \<^verbatim>\<open>refreshStatus\<close> is purely a display refresh. Each call acts on the one character it
  is made on.
\<close>

definition upd :: "cref \<Rightarrow> (character \<Rightarrow> character) \<Rightarrow> handler \<Rightarrow> handler" where
  "upd r f st = st\<lparr>heap := (heap st)(r := f (heap st r))\<rparr>"

definition msg :: "cref \<Rightarrow> payload \<Rightarrow> handler \<Rightarrow> handler" where
  "msg r p st = upd r (\<lambda>c. c\<lparr>msgs := msgs c @ [p]\<rparr>) st"

definition set_team :: "cref \<Rightarrow> nat option \<Rightarrow> handler \<Rightarrow> handler" where
  "set_team r t st = upd r (\<lambda>c. c\<lparr>team := t\<rparr>) st"

definition show_status :: "cref \<Rightarrow> handler \<Rightarrow> handler" where
  "show_status r st = upd r (\<lambda>c. c\<lparr>status_shown := Suc (status_shown c)\<rparr>) st"

text \<open>
  Modelled from the spec: \<^verbatim>\<open>character.cmdset.add(settings.CMDSET_COMBAT)\<close> enables the
  combat action set; the count tells how often it has been enabled.
\<close>

definition cmdset_add :: "cref \<Rightarrow> handler \<Rightarrow> handler" where
  "cmdset_add r st = upd r (\<lambda>c. c\<lparr>cmdset_combat := Suc (cmdset_combat c)\<rparr>) st"

text \<open>
  Modelled from the spec: \<^verbatim>\<open>character.cmdset.delete(settings.CMDSET_COMBAT)\<close> disables
  the combat action set, and is harmless on a character that has none.
\<close>

definition cmdset_delete :: "cref \<Rightarrow> handler \<Rightarrow> handler" where
  "cmdset_delete r st = upd r (\<lambda>c. c\<lparr>cmdset_combat := 0\<rparr>) st"

subsection \<open>The timer\<close>

text \<open>
  Modelled from the spec: the timer is the reactor's, not the handler's. The spec
  (section 2) describes it as a single cancellable deferred-execution primitive that is
  scheduled for the whole session and fires at most once.
\<close>

text \<open>\<^verbatim>\<open>self.timer and self.timer.active()\<close>\<close>

definition timer_active :: "handler \<Rightarrow> bool" where
  "timer_active st =
     (case timer st of None \<Rightarrow> False | Some t \<Rightarrow> \<not> called t \<and> \<not> cancelled t)"

text \<open>
  \<^verbatim>\<open>self.timer.cancel()\<close>. The handler calls it only under the guard \<open>timer_active\<close>,
  where it cannot raise.
\<close>

definition timer_cancel :: "handler \<Rightarrow> handler" where
  "timer_cancel st =
     st\<lparr>timer := map_option (\<lambda>t. t\<lparr>cancelled := True\<rparr>) (timer st),
        cancels := Suc (cancels st)\<rparr>"

text \<open>
  \<^verbatim>\<open>reactor.callLater(seconds, f)\<close> asserts that the delay is not negative and returns a
  pending call.
\<close>

definition callLater :: "int \<Rightarrow> error + delayed_call" where
  "callLater seconds =
     (if seconds < 0 then Inl AssertionError
      else Inr \<lparr>delay = seconds, called = False, cancelled = False\<rparr>)"

section \<open>The methods of BaseCombatHandler\<close>

definition at_script_creation :: "handler \<Rightarrow> handler" where
  "at_script_creation st =
     st\<lparr>desc := ''handles combat'', interval := 0, persistent := False,
        characters := [], finished := False, timeout := 0, timer := None\<rparr>"

definition get_appearance :: "handler \<Rightarrow> appearance" where
  "get_appearance st =
     \<lparr>app_desc = desc st, app_timeout = timeout st,
      app_characters =
        map (\<lambda>r. \<lparr>info_dbref = dbref (heap st r), info_name = name (heap st r),
                   info_team = team (heap st r), info_max_hp = max_hp (heap st r),
                   info_hp = hp (heap st r), info_icon = icon (heap st r)\<rparr>)
            (dict_values (characters st))\<rparr>"

definition show_combat :: "cref \<Rightarrow> handler \<Rightarrow> handler" where
  "show_combat r st =
     (let st1 = msg r Joined_combat st
      in msg r (Combat_info (get_appearance st1)) st1)"

text \<open>
  \<^verbatim>\<open>_cleanup_character\<close>. Clearing the back-reference \<^verbatim>\<open>ndb.combat_handler\<close> and deleting
  the command set are harmless when there is nothing to clear or delete.
\<close>

definition cleanup_character :: "cref \<Rightarrow> handler \<Rightarrow> handler" where
  "cleanup_character r st =
     (let st1 = upd r (\<lambda>c. c\<lparr>combat_handler := None\<rparr>) st;
          st2 = cmdset_delete r st1
      in if has_account (heap st2 r)
         then show_status r (msg r Left_combat st2)
         else st2)"

definition at_stop :: "handler \<Rightarrow> handler" where
  "at_stop st =
     (let st1 = (if timer_active st then timer_cancel st else st)
      in fold cleanup_character (dict_values (characters st1)) st1)"

text \<open>
  Modelled from the spec: \<^verbatim>\<open>self.stop()\<close> is inherited from the script base class, which
  is not part of the handler's source. It stops the session (spec, section 4.6): it runs
  the hook \<^verbatim>\<open>at_stop\<close>, which by its docstring is "called just before the script is
  stopped/destroyed", and then stops the script.
\<close>

definition stop :: "handler \<Rightarrow> handler" where
  "stop st = (let st1 = at_stop st in st1\<lparr>stops := Suc (stops st1)\<rparr>)"

definition at_server_shutdown :: "handler \<Rightarrow> handler" where
  "at_server_shutdown st = stop st"

definition start_combat :: "handler \<Rightarrow> handler" where
  "start_combat st = st"

text \<open>
  The first loop of \<^verbatim>\<open>set_combat\<close>. \<^verbatim>\<open>teams\<close> is a dict from team id to a list of
  characters; it is given as the list of its items in the order in which the loop meets
  them, whatever that order is.
\<close>

definition admit_character ::
  "((nat \<times> cref) list \<Rightarrow> (nat \<times> cref) list) \<Rightarrow> nat option \<Rightarrow> cref \<Rightarrow> handler \<Rightarrow> handler" where
  "admit_character arrange t r st =
     (let st1 = set_team r t st
      in st1\<lparr>characters := dict_set arrange (dbref (heap st1 r)) r (characters st1)\<rparr>)"

definition admit_teams ::
  "((nat \<times> cref) list \<Rightarrow> (nat \<times> cref) list) \<Rightarrow>
   (nat option \<times> cref list) list \<Rightarrow> handler \<Rightarrow> handler" where
  "admit_teams arrange teams st =
     fold (\<lambda>(t, rs). fold (admit_character arrange t) rs) teams st"

text \<open>The body of the second loop of \<^verbatim>\<open>set_combat\<close>.\<close>

definition enter_combat :: "cref \<Rightarrow> handler \<Rightarrow> handler" where
  "enter_combat r st =
     (let st1 = upd r (\<lambda>c. c\<lparr>combat_handler := Some (self_ref st)\<rparr>) st;
          st2 = cmdset_add r st1
      in if has_account (heap st2 r) then show_combat r st2 else st2)"

definition set_combat ::
  "((nat \<times> cref) list \<Rightarrow> (nat \<times> cref) list) \<Rightarrow>
   (nat option \<times> cref list) list \<Rightarrow> string \<Rightarrow> int \<Rightarrow> handler \<Rightarrow> error + handler" where
  "set_combat arrange teams d t st =
     (let st1 = st\<lparr>desc := d, timeout := t\<rparr>;
          st2 = admit_teams arrange teams st1;
          st3 = fold enter_combat (dict_values (characters st2)) st2;
          st4 = start_combat st3
      in if timeout st4 \<noteq> 0
         then (case callLater (timeout st4) of
                 Inl e \<Rightarrow> Inl e
               | Inr c \<Rightarrow> Inr (st4\<lparr>timer := Some c\<rparr>))
         else Inr st4)"

definition set_combat_draw :: "handler \<Rightarrow> handler" where
  "set_combat_draw st =
     fold (\<lambda>r s. if has_account (heap s r) then msg r (Combat_finish Draw) s else s)
          (dict_values (characters st)) st"

definition at_timeout :: "handler \<Rightarrow> handler" where
  "at_timeout st = (if finished st then st else stop (set_combat_draw st))"

definition msg_all :: "payload \<Rightarrow> handler \<Rightarrow> handler" where
  "msg_all p st = fold (\<lambda>r. msg r p) (dict_values (characters st)) st"

text \<open>
  The loop of \<^verbatim>\<open>can_finish\<close>, with the set \<^verbatim>\<open>teams\<close> as its accumulator; it returns
  \<open>False\<close> as soon as the set has more than one element.
\<close>

fun can_finish_loop :: "cref list \<Rightarrow> nat option set \<Rightarrow> handler \<Rightarrow> bool" where
  "can_finish_loop [] teams st = True"
| "can_finish_loop (r # rs) teams st =
     (if alive (heap st r)
      then (let teams' = insert (team (heap st r)) teams
            in if card teams' > 1 then False else can_finish_loop rs teams' st)
      else can_finish_loop rs teams st)"

definition can_finish :: "handler \<Rightarrow> bool" where
  "can_finish st =
     (if characters st = [] then False
      else if length (characters st) = 0 then False
      else can_finish_loop (dict_values (characters st)) {} st)"

text \<open>
  The search for the winning team in \<^verbatim>\<open>finish\<close>: the team of the first character that
  is alive, or \<^verbatim>\<open>None\<close> when the loop ends without a \<^verbatim>\<open>break\<close>.
\<close>

fun winner_loop :: "cref list \<Rightarrow> handler \<Rightarrow> nat option" where
  "winner_loop [] st = None"
| "winner_loop (r # rs) st =
     (if alive (heap st r) then team (heap st r) else winner_loop rs st)"

definition set_combat_results :: "cref list \<Rightarrow> cref list \<Rightarrow> handler \<Rightarrow> handler" where
  "set_combat_results winners losers st =
     (let st1 = fold (\<lambda>r s. if has_account (heap s r)
                             then msg r (Combat_finish Win) s else s) winners st
      in fold (\<lambda>r s. if has_account (heap s r)
                      then msg r (Combat_finish Lose) s else s) losers st1)"

definition finish :: "handler \<Rightarrow> handler" where
  "finish st =
     (let st1 = st\<lparr>finished := True\<rparr>;
          st2 = (if timer_active st1 then timer_cancel st1 else st1);
          st3 = (if characters st2 \<noteq> []
                 then (let winner_team = winner_loop (dict_values (characters st2)) st2;
                           winners = filter (\<lambda>c. team (heap st2 c) = winner_team)
                                       (dict_values (characters st2));
                           losers = filter (\<lambda>c. team (heap st2 c) \<noteq> winner_team)
                                      (dict_values (characters st2))
                       in set_combat_results winners losers st2)
                 else st2)
      in stop st3)"

definition remove_character :: "cref \<Rightarrow> handler \<Rightarrow> handler" where
  "remove_character r st =
     (if dict_contains (dbref (heap st r)) (characters st)
      then (let st1 = cleanup_character r st;
                st2 = st1\<lparr>characters := dict_del (dbref (heap st1 r)) (characters st1)\<rparr>
            in if can_finish st2 then finish st2 else st2)
      else st)"

definition get_all_characters :: "handler \<Rightarrow> cref list" where
  "get_all_characters st =
     (if characters st = [] then [] else dict_values (characters st))"

text \<open>
  \<^verbatim>\<open>prepare_skill\<close>. What \<^verbatim>\<open>caller.cast_skill(skill_key, target)\<close> does is not part of the
  handler: it is the parameter \<open>cast_skill\<close>, any transformation of the world. A
  \<^verbatim>\<open>caller\<close> that is \<^verbatim>\<open>None\<close> is \<open>None\<close>.
\<close>

definition prepare_skill ::
  "(string \<Rightarrow> cref \<Rightarrow> cref option \<Rightarrow> handler \<Rightarrow> handler) \<Rightarrow>
   string \<Rightarrow> cref option \<Rightarrow> cref option \<Rightarrow> handler \<Rightarrow> handler" where
  "prepare_skill cast_skill skill_key caller target st =
     (if finished st then st
      else (case caller of
              None \<Rightarrow> st
            | Some c \<Rightarrow>
                (let st1 = cast_skill skill_key c target st
                 in if can_finish st1 then finish st1 else st1)))"

definition skill_escape :: "cref option \<Rightarrow> handler \<Rightarrow> handler" where
  "skill_escape caller st =
     (case caller of
        None \<Rightarrow> st
      | Some c \<Rightarrow>
          (let st1 = (if has_account (heap st c)
                      then msg c (Combat_finish Escaped) st else st)
           in if dict_contains (dbref (heap st1 c)) (characters st1)
              then (let st2 = cleanup_character c st1
                    in st2\<lparr>characters := dict_del (dbref (heap st2 c)) (characters st2)\<rparr>)
              else st1))"

definition send_skill_result :: "string \<Rightarrow> handler \<Rightarrow> handler" where
  "send_skill_result result st =
     fold (\<lambda>r s. if has_account (heap s r) then msg r (Skill_result result) s else s)
          (dict_values (characters st)) st"

section \<open>Derived notions used in the statements and proofs\<close>

text \<open>
  The roster invariant. The keys of a dict are distinct, and the only statement that adds
  an entry is \<^verbatim>\<open>self.characters[character.dbref] = character\<close>, so every entry is keyed
  by the \<^verbatim>\<open>dbref\<close> of its character.
\<close>

definition roster_ok :: "handler \<Rightarrow> bool" where
  "roster_ok st \<longleftrightarrow>
     distinct (map fst (characters st)) \<and>
     (\<forall>kr \<in> set (characters st). dbref (heap st (snd kr)) = fst kr)"

text \<open>Applying one change to every character of a set, and to nothing else.\<close>

definition on_chars :: "cref set \<Rightarrow> (character \<Rightarrow> character) \<Rightarrow> handler \<Rightarrow> handler" where
  "on_chars R f st = st\<lparr>heap := (\<lambda>x. if x \<in> R then f (heap st x) else heap st x)\<rparr>"

text \<open>What \<^verbatim>\<open>_cleanup_character\<close> does to the character it is called on.\<close>

definition released :: "character \<Rightarrow> character" where
  "released c =
     (if has_account c
      then c\<lparr>combat_handler := None, cmdset_combat := 0,
             msgs := msgs c @ [Left_combat], status_shown := Suc (status_shown c)\<rparr>
      else c\<lparr>combat_handler := None, cmdset_combat := 0\<rparr>)"

text \<open>What \<^verbatim>\<open>if character.has_account: character.msg(p)\<close> does to the character.\<close>

definition notified :: "payload \<Rightarrow> character \<Rightarrow> character" where
  "notified p c = (if has_account c then c\<lparr>msgs := msgs c @ [p]\<rparr> else c)"

text \<open>What the second loop of \<^verbatim>\<open>set_combat\<close> does to the character.\<close>

definition entered :: "nat \<Rightarrow> appearance \<Rightarrow> character \<Rightarrow> character" where
  "entered h app c =
     (if has_account c
      then c\<lparr>combat_handler := Some h, cmdset_combat := Suc (cmdset_combat c),
             msgs := msgs c @ [Joined_combat, Combat_info app]\<rparr>
      else c\<lparr>combat_handler := Some h, cmdset_combat := Suc (cmdset_combat c)\<rparr>)"

text \<open>The guarded cancellation that \<^verbatim>\<open>at_stop\<close> and \<^verbatim>\<open>finish\<close> both start with.\<close>

definition cancel_if_active :: "handler \<Rightarrow> handler" where
  "cancel_if_active st = (if timer_active st then timer_cancel st else st)"

text \<open>The notification \<^verbatim>\<open>finish\<close> picks for a character of the roster.\<close>

definition outcome :: "handler \<Rightarrow> cref \<Rightarrow> finish_kind" where
  "outcome st r =
     (if team (heap st r) = winner_loop (dict_values (characters st)) st then Win else Lose)"

text \<open>The nested loop of \<^verbatim>\<open>set_combat\<close> visits these (team, character) pairs in order.\<close>

definition team_pairs :: "(nat option \<times> cref list) list \<Rightarrow> (nat option \<times> cref) list" where
  "team_pairs teams = concat (map (\<lambda>(t, rs). map (Pair t) rs) teams)"

definition assigned ::
  "(nat option \<times> cref) list \<Rightarrow> (cref \<Rightarrow> character) \<Rightarrow> cref \<Rightarrow> character" where
  "assigned ps h x =
     (case map_of (map (\<lambda>(t, r). (r, t)) ps) x of
        None \<Rightarrow> h x
      | Some t \<Rightarrow> (h x)\<lparr>team := t\<rparr>)"

text \<open>The roster that admission builds, whatever its order.\<close>

definition admitted :: "handler \<Rightarrow> (nat option \<times> cref list) list \<Rightarrow> (nat \<times> cref) list \<Rightarrow> bool" where
  "admitted st teams cs \<longleftrightarrow>
     set cs = (\<lambda>r. (dbref (heap st r), r)) ` set (concat (map snd teams)) \<and>
     distinct (map fst cs)"

section \<open>Example sessions\<close>

text \<open>
  A character in combat with handler 7, and a character that has not joined any combat.
  Object \<open>r\<close> has \<^verbatim>\<open>dbref\<close> \<open>100 + r\<close>; in \<open>duel\<close> and \<open>trio\<close> object \<open>r\<close> is the only
  member of team \<open>r\<close>, and a timer of 5 seconds is pending.
\<close>

definition combatant :: "nat \<Rightarrow> nat \<Rightarrow> character" where
  "combatant d tm =
     \<lparr>dbref = d, name = ''fighter'', max_hp = 10, hp = 10, icon = None, team = Some tm,
      alive = True, has_account = True, combat_handler = Some 7, cmdset_combat = 1,
      msgs = [], status_shown = 0\<rparr>"

definition newcomer :: "nat \<Rightarrow> character" where
  "newcomer d =
     \<lparr>dbref = d, name = ''fighter'', max_hp = 10, hp = 10, icon = None, team = None,
      alive = True, has_account = True, combat_handler = None, cmdset_combat = 0,
      msgs = [], status_shown = 0\<rparr>"

definition lobby :: handler where
  "lobby =
     \<lparr>self_ref = 7, desc = [], interval = 0, persistent = False,
      characters = [], finished = False, timeout = 0, timer = None,
      heap = (\<lambda>r. newcomer (100 + r)), cancels = 0, stops = 0\<rparr>"

definition duel :: handler where
  "duel =
     \<lparr>self_ref = 7, desc = ''duel'', interval = 0, persistent = False,
      characters = [(101, 1), (102, 2)], finished = False, timeout = 5,
      timer = Some \<lparr>delay = 5, called = False, cancelled = False\<rparr>,
      heap = (\<lambda>r. combatant (100 + r) r), cancels = 0, stops = 0\<rparr>"

definition trio :: handler where
  "trio = duel\<lparr>desc := ''melee'', characters := [(101, 1), (102, 2), (103, 3)]\<rparr>"

text \<open>A character dies.\<close>

definition knock_out :: "cref \<Rightarrow> handler \<Rightarrow> handler" where
  "knock_out r st = upd r (\<lambda>c. c\<lparr>alive := False, hp := 0\<rparr>) st"

text \<open>A \<^verbatim>\<open>cast_skill\<close> that kills its target.\<close>

definition lethal_skill :: "string \<Rightarrow> cref \<Rightarrow> cref option \<Rightarrow> handler \<Rightarrow> handler" where
  "lethal_skill skill_key c target st =
     (case target of None \<Rightarrow> st | Some t \<Rightarrow> knock_out t st)"

text \<open>A \<^verbatim>\<open>cast_skill\<close> that kills its target and then finishes the combat itself.\<close>

definition finishing_skill :: "string \<Rightarrow> cref \<Rightarrow> cref option \<Rightarrow> handler \<Rightarrow> handler" where
  "finishing_skill skill_key c target st = finish (lethal_skill skill_key c target st)"

section \<open>The termination predicate\<close>

lemma can_finish_loop_card:
  "finite teams \<Longrightarrow> card teams \<le> 1 \<Longrightarrow>
   can_finish_loop rs teams st \<longleftrightarrow>
     card (teams \<union> (\<lambda>r. team (heap st r)) ` {r \<in> set rs. alive (heap st r)}) \<le> 1"
proof (induction rs arbitrary: teams)
  case Nil
  then show ?case by simp
next
  case (Cons r rs)
  let ?t = "team (heap st r)"
  let ?A = "\<lambda>xs. (\<lambda>r. team (heap st r)) ` {r \<in> set xs. alive (heap st r)}"
  show ?case
  proof (cases "alive (heap st r)")
    case False
    then have "?A (r # rs) = ?A rs" by auto
    with False Cons show ?thesis by simp
  next
    case True
    then have eq: "teams \<union> ?A (r # rs) = insert ?t teams \<union> ?A rs" by auto
    show ?thesis
    proof (cases "card (insert ?t teams) > 1")
      case big: True
      have "finite (insert ?t teams \<union> ?A rs)" using Cons.prems by simp
      then have "card (insert ?t teams) \<le> card (insert ?t teams \<union> ?A rs)"
        by (intro card_mono) auto
      with big True eq show ?thesis by (simp add: Let_def)
    next
      case small: False
      then have "card (insert ?t teams) \<le> 1" by simp
      with Cons.IH[of "insert ?t teams"] Cons.prems
      have "can_finish_loop rs (insert ?t teams) st \<longleftrightarrow>
            card (insert ?t teams \<union> ?A rs) \<le> 1" by simp
      with small True eq show ?thesis by (simp add: Let_def)
    qed
  qed
qed

text \<open>
  Claim C4. \<^verbatim>\<open>can_finish\<close> returns true exactly when the roster is not empty and the
  team ids of the roster's characters that are alive form a set of at most one element.
  So it is false for an empty roster, false while characters of two teams are alive, and
  true for a roster that is not empty and has nobody alive.
\<close>

theorem can_finish_iff:
  "can_finish st \<longleftrightarrow>
     characters st \<noteq> [] \<and>
     card ((\<lambda>r. team (heap st r)) `
             {r \<in> set (dict_values (characters st)). alive (heap st r)}) \<le> 1"
  using can_finish_loop_card[of "{}" "dict_values (characters st)" st]
  by (simp add: can_finish_def)

text \<open>
  The three cases on examples: no roster, two teams alive, nobody alive.
\<close>

lemma can_finish_examples:
  "\<not> can_finish lobby"
  "\<not> can_finish duel"
  "can_finish (knock_out 2 duel)"
  "can_finish (knock_out 1 (knock_out 2 duel))"
  by (simp_all add: can_finish_def lobby_def duel_def combatant_def knock_out_def
        dict_values_def upd_def)

section \<open>Loops over the roster\<close>

text \<open>
  Every loop of the handler calls methods of one character at a time, so a loop over a
  list of distinct characters changes each of them once and leaves the rest of the world
  alone.
\<close>

lemma dict_values_simps [simp]:
  "dict_values [] = []"
  "dict_values (kv # kvs) = snd kv # dict_values kvs"
  by (simp_all add: dict_values_def)

lemma upd_simps [simp]:
  "heap (upd r f st) = (heap st)(r := f (heap st r))"
  "characters (upd r f st) = characters st"
  "finished (upd r f st) = finished st"
  "timer (upd r f st) = timer st"
  "timeout (upd r f st) = timeout st"
  "desc (upd r f st) = desc st"
  "self_ref (upd r f st) = self_ref st"
  "cancels (upd r f st) = cancels st"
  "stops (upd r f st) = stops st"
  by (simp_all add: upd_def)

lemma on_chars_simps [simp]:
  "heap (on_chars R f st) = (\<lambda>x. if x \<in> R then f (heap st x) else heap st x)"
  "characters (on_chars R f st) = characters st"
  "finished (on_chars R f st) = finished st"
  "timer (on_chars R f st) = timer st"
  "timeout (on_chars R f st) = timeout st"
  "desc (on_chars R f st) = desc st"
  "self_ref (on_chars R f st) = self_ref st"
  "cancels (on_chars R f st) = cancels st"
  "stops (on_chars R f st) = stops st"
  by (simp_all add: on_chars_def)

lemma fold_upd:
  "distinct rs \<Longrightarrow> fold (\<lambda>r. upd r f) rs st = on_chars (set rs) f st"
proof (induction rs arbitrary: st)
  case Nil
  show ?case by (simp add: on_chars_def)
next
  case (Cons r rs)
  then have "fold (\<lambda>r. upd r f) (r # rs) st = on_chars (set rs) f (upd r f st)"
    by simp
  also have "\<dots> = on_chars (set (r # rs)) f st"
    using Cons.prems by (auto simp: on_chars_def upd_def fun_eq_iff)
  finally show ?case .
qed

lemma cleanup_character_upd: "cleanup_character r st = upd r released st"
  by (simp add: cleanup_character_def cmdset_delete_def msg_def show_status_def
        released_def upd_def Let_def)

lemma notify_upd:
  "(if has_account (heap s r) then msg r p s else s) = upd r (notified p) s"
  by (simp add: msg_def notified_def upd_def)

lemma fold_cleanup:
  "distinct rs \<Longrightarrow> fold cleanup_character rs st = on_chars (set rs) released st"
proof -
  assume d: "distinct rs"
  have eq: "cleanup_character = (\<lambda>r. upd r released)"
    by (simp add: fun_eq_iff cleanup_character_upd)
  show ?thesis unfolding eq using d by (rule fold_upd)
qed

lemma fold_notify:
  "distinct rs \<Longrightarrow>
   fold (\<lambda>r s. if has_account (heap s r) then msg r p s else s) rs st
     = on_chars (set rs) (notified p) st"
  by (simp add: notify_upd fold_upd)

lemma roster_ok_distinct:
  assumes ok: "roster_ok st"
  shows "distinct (dict_values (characters st))"
proof -
  have key: "\<And>kr. kr \<in> set (characters st) \<Longrightarrow> dbref (heap st (snd kr)) = fst kr"
    using ok by (simp add: roster_ok_def)
  have "inj_on snd (set (characters st))"
  proof (rule inj_onI)
    fix a b
    assume a: "a \<in> set (characters st)" and b: "b \<in> set (characters st)"
      and e: "snd a = snd b"
    from key[OF a] key[OF b] e have "fst a = fst b" by simp
    with e show "a = b" by (simp add: prod_eq_iff)
  qed
  moreover have "distinct (characters st)"
    using ok by (auto simp: roster_ok_def distinct_map)
  ultimately show ?thesis by (simp add: dict_values_def distinct_map)
qed

lemma released_simps [simp]:
  "combat_handler (released c) = None"
  "cmdset_combat (released c) = 0"
  "msgs (released c) = (if has_account c then msgs c @ [Left_combat] else msgs c)"
  "status_shown (released c) = (if has_account c then Suc (status_shown c) else status_shown c)"
  "has_account (released c) = has_account c"
  "team (released c) = team c"
  "alive (released c) = alive c"
  "dbref (released c) = dbref c"
  by (simp_all add: released_def)

lemma notified_simps [simp]:
  "combat_handler (notified p c) = combat_handler c"
  "cmdset_combat (notified p c) = cmdset_combat c"
  "msgs (notified p c) = (if has_account c then msgs c @ [p] else msgs c)"
  "status_shown (notified p c) = status_shown c"
  "has_account (notified p c) = has_account c"
  "team (notified p c) = team c"
  "alive (notified p c) = alive c"
  "dbref (notified p c) = dbref c"
  by (simp_all add: notified_def)

lemma cancel_if_active_simps [simp]:
  "heap (cancel_if_active st) = heap st"
  "characters (cancel_if_active st) = characters st"
  "finished (cancel_if_active st) = finished st"
  "timeout (cancel_if_active st) = timeout st"
  "desc (cancel_if_active st) = desc st"
  "self_ref (cancel_if_active st) = self_ref st"
  "stops (cancel_if_active st) = stops st"
  "cancels (cancel_if_active st) = (if timer_active st then Suc (cancels st) else cancels st)"
  "timer_active (cancel_if_active st) = False"
  by (auto simp: cancel_if_active_def timer_cancel_def timer_active_def split: option.splits)

lemma timer_active_frame [simp]:
  "timer_active (on_chars R f st) = timer_active st"
  "timer_active (st\<lparr>finished := b\<rparr>) = timer_active st"
  "timer_active (st\<lparr>stops := n\<rparr>) = timer_active st"
  by (simp_all add: timer_active_def)

lemma fold_cleanup_frame:
  "finished (fold cleanup_character rs st) = finished st"
  "characters (fold cleanup_character rs st) = characters st"
  by (induction rs arbitrary: st) (simp_all add: cleanup_character_upd)

lemma fold_notify_frame:
  "finished (fold (\<lambda>r s. if has_account (heap s r) then msg r p s else s) rs st) = finished st"
  "characters (fold (\<lambda>r s. if has_account (heap s r) then msg r p s else s) rs st) = characters st"
  by (induction rs arbitrary: st) (simp_all add: notify_upd)

section \<open>Stopping the script\<close>

lemma at_stop_eq:
  "distinct (dict_values (characters st)) \<Longrightarrow>
   at_stop st = on_chars (set (dict_values (characters st))) released (cancel_if_active st)"
  by (simp add: at_stop_def Let_def fold_cleanup cancel_if_active_def timer_cancel_def)

lemma stop_eq:
  "distinct (dict_values (characters st)) \<Longrightarrow>
   stop st = (on_chars (set (dict_values (characters st))) released (cancel_if_active st))
               \<lparr>stops := Suc (stops st)\<rparr>"
  by (simp add: stop_def Let_def at_stop_eq)

lemma stop_frame:
  "finished (stop st) = finished st"
  "characters (stop st) = characters st"
  by (simp_all add: stop_def at_stop_def Let_def fold_cleanup_frame timer_cancel_def)

lemma stop_heap:
  assumes "roster_ok st"
  shows "heap (stop st) r =
           (if r \<in> set (dict_values (characters st)) then released (heap st r) else heap st r)"
  using roster_ok_distinct[OF assms] by (simp add: stop_eq)

lemma set_combat_draw_eq:
  "distinct (dict_values (characters st)) \<Longrightarrow>
   set_combat_draw st =
     on_chars (set (dict_values (characters st))) (notified (Combat_finish Draw)) st"
  by (simp add: set_combat_draw_def fold_notify)

lemma set_combat_results_eq:
  "distinct ws \<Longrightarrow> distinct ls \<Longrightarrow>
   set_combat_results ws ls st =
     on_chars (set ls) (notified (Combat_finish Lose))
       (on_chars (set ws) (notified (Combat_finish Win)) st)"
  by (simp add: set_combat_results_def Let_def fold_notify)

section \<open>Finishing a combat\<close>

lemma winner_loop_heap:
  "heap st' = heap st \<Longrightarrow> winner_loop rs st' = winner_loop rs st"
  by (induction rs) simp_all

lemma winner_loop_find:
  "winner_loop rs st =
     (case find (\<lambda>r. alive (heap st r)) rs of None \<Rightarrow> None | Some w \<Rightarrow> team (heap st w))"
  by (induction rs) simp_all

lemma winner_loop_nobody_alive:
  "\<forall>r \<in> set rs. \<not> alive (heap st r) \<Longrightarrow> winner_loop rs st = None"
  by (induction rs) simp_all

lemma finish_frame:
  assumes "distinct (dict_values (characters st))"
  shows "characters (finish st) = characters st"
    and "finished (finish st) = True"
    and "stops (finish st) = Suc (stops st)"
    and "cancels (finish st) = (if timer_active st then Suc (cancels st) else cancels st)"
    and "timer_active (finish st) = False"
  using assms
  by (simp_all add: finish_def Let_def stop_eq set_combat_results_eq distinct_filter
       flip: cancel_if_active_def)

lemma finish_heap:
  assumes "distinct (dict_values (characters st))"
  shows "heap (finish st) r =
           (if r \<in> set (dict_values (characters st))
            then released (notified (Combat_finish (outcome st r)) (heap st r))
            else heap st r)"
proof -
  let ?st2 = "cancel_if_active (st\<lparr>finished := True\<rparr>)"
  have w: "winner_loop (dict_values (characters st)) ?st2 =
           winner_loop (dict_values (characters st)) st"
    by (rule winner_loop_heap) simp
  show ?thesis
  proof (cases "characters st = []")
    case True
    then show ?thesis
      using assms by (simp add: finish_def Let_def stop_eq dict_values_def
          flip: cancel_if_active_def)
  next
    case False
    then show ?thesis
      using assms w
      by (simp add: finish_def Let_def stop_eq set_combat_results_eq distinct_filter outcome_def
          flip: cancel_if_active_def)
  qed
qed

lemma finish_finished: "finished (finish st)"
  by (simp add: finish_def Let_def stop_frame set_combat_results_def fold_notify_frame
        timer_cancel_def)

lemma finish_keeps_roster: "characters (finish st) = characters st"
  by (simp add: finish_def Let_def stop_frame set_combat_results_def fold_notify_frame
        timer_cancel_def)

lemma at_timeout_frame:
  "finished (at_timeout st) = finished st"
  "characters (at_timeout st) = characters st"
  by (simp_all add: at_timeout_def stop_frame set_combat_draw_def fold_notify_frame)

text \<open>
  Claim C5. When \<^verbatim>\<open>finish\<close> runs on a roster in which some character is alive, the
  winning team is the team of the first character alive in the order of the roster. A
  character of the roster with an account receives \<^verbatim>\<open>win\<close> when its team is that team
  and \<^verbatim>\<open>lose\<close> otherwise, whether it is alive or not, followed by \<^verbatim>\<open>left_combat\<close>; a
  character of the roster without an account receives nothing, and nothing outside the
  roster changes.
\<close>

theorem finish_winners_losers:
  assumes "roster_ok st"
    and "find (\<lambda>r. alive (heap st r)) (dict_values (characters st)) = Some w"
  shows "if r \<in> set (dict_values (characters st))
             then msgs (heap (finish st) r) =
                    msgs (heap st r) @
                      (if has_account (heap st r)
                       then [Combat_finish (if team (heap st r) = team (heap st w)
                                            then Win else Lose), Left_combat]
                       else [])
             else heap (finish st) r = heap st r"
proof -
  have d: "distinct (dict_values (characters st))"
    using assms(1) by (rule roster_ok_distinct)
  have "winner_loop (dict_values (characters st)) st = team (heap st w)"
    using assms(2) by (simp add: winner_loop_find)
  then show ?thesis
    by (simp add: finish_heap[OF d] outcome_def)
qed

theorem finish_winners_losers_witness:
  "roster_ok (knock_out 2 duel) \<and>
   find (\<lambda>r. alive (heap (knock_out 2 duel) r))
        (dict_values (characters (knock_out 2 duel))) = Some 1 \<and>
   msgs (heap (finish (knock_out 2 duel)) 1) = [Combat_finish Win, Left_combat] \<and>
   msgs (heap (finish (knock_out 2 duel)) 2) = [Combat_finish Lose, Left_combat]"
proof -
  have ok: "roster_ok (knock_out 2 duel)"
    by (simp add: roster_ok_def knock_out_def duel_def combatant_def)
  have w: "find (\<lambda>r. alive (heap (knock_out 2 duel) r))
             (dict_values (characters (knock_out 2 duel))) = Some 1"
    by (simp add: knock_out_def duel_def combatant_def)
  have "msgs (heap (finish (knock_out 2 duel)) 1) = [Combat_finish Win, Left_combat]"
    using finish_winners_losers[OF ok w, of 1]
    by (simp add: knock_out_def duel_def combatant_def)
  moreover
  have "msgs (heap (finish (knock_out 2 duel)) 2) = [Combat_finish Lose, Left_combat]"
    using finish_winners_losers[OF ok w, of 2]
    by (simp add: knock_out_def duel_def combatant_def)
  ultimately show ?thesis using ok w by simp
qed

text \<open>
  Claim C10. When \<^verbatim>\<open>finish\<close> runs on a roster that is not empty and has nobody alive,
  \<^verbatim>\<open>winner_team\<close> stays \<^verbatim>\<open>None\<close>. Every character of the roster has a team id, which is
  not \<^verbatim>\<open>None\<close>, so each character with an account receives \<^verbatim>\<open>lose\<close> and nobody
  receives \<^verbatim>\<open>win\<close>.
\<close>

theorem finish_double_knockout:
  assumes "roster_ok st"
    and "characters st \<noteq> []"
    and "\<forall>r \<in> set (dict_values (characters st)). \<not> alive (heap st r)"
    and "\<forall>r \<in> set (dict_values (characters st)). team (heap st r) \<noteq> None"
  shows "winner_loop (dict_values (characters st)) st = None \<and>
         (if r \<in> set (dict_values (characters st))
          then msgs (heap (finish st) r) =
                 msgs (heap st r) @
                   (if has_account (heap st r) then [Combat_finish Lose, Left_combat] else [])
          else heap (finish st) r = heap st r)"
proof -
  have d: "distinct (dict_values (characters st))"
    using assms(1) by (rule roster_ok_distinct)
  have w: "winner_loop (dict_values (characters st)) st = None"
    using assms(3) by (rule winner_loop_nobody_alive)
  show ?thesis
    using assms(4) by (auto simp: finish_heap[OF d] outcome_def w)
qed

theorem finish_double_knockout_witness:
  "roster_ok (knock_out 1 (knock_out 2 duel)) \<and>
   dict_values (characters (knock_out 1 (knock_out 2 duel))) = [1, 2] \<and>
   \<not> alive (heap (knock_out 1 (knock_out 2 duel)) 1) \<and>
   \<not> alive (heap (knock_out 1 (knock_out 2 duel)) 2) \<and>
   team (heap (knock_out 1 (knock_out 2 duel)) 1) = Some 1 \<and>
   team (heap (knock_out 1 (knock_out 2 duel)) 2) = Some 2 \<and>
   winner_loop (dict_values (characters (knock_out 1 (knock_out 2 duel))))
     (knock_out 1 (knock_out 2 duel)) = None \<and>
   msgs (heap (finish (knock_out 1 (knock_out 2 duel))) 1) = [Combat_finish Lose, Left_combat] \<and>
   msgs (heap (finish (knock_out 1 (knock_out 2 duel))) 2) = [Combat_finish Lose, Left_combat]"
proof -
  let ?st = "knock_out 1 (knock_out 2 duel)"
  have ok: "roster_ok ?st"
    by (simp add: roster_ok_def knock_out_def duel_def combatant_def)
  have vals: "dict_values (characters ?st) = [1, 2]"
    by (simp add: knock_out_def duel_def)
  then have ne: "characters ?st \<noteq> []"
    by auto
  have facts: "\<not> alive (heap ?st 1)" "\<not> alive (heap ?st 2)"
    "team (heap ?st 1) = Some 1" "team (heap ?st 2) = Some 2"
    by (simp_all add: knock_out_def duel_def combatant_def)
  have dead: "\<forall>r \<in> set (dict_values (characters ?st)). \<not> alive (heap ?st r)"
    unfolding vals using facts by simp
  have tm: "\<forall>r \<in> set (dict_values (characters ?st)). team (heap ?st r) \<noteq> None"
    unfolding vals using facts by simp
  have "winner_loop (dict_values (characters ?st)) ?st = None \<and>
        msgs (heap (finish ?st) 1) = [Combat_finish Lose, Left_combat]"
    using finish_double_knockout[OF ok ne dead tm, of 1]
    by (simp add: knock_out_def duel_def combatant_def)
  moreover
  have "msgs (heap (finish ?st) 2) = [Combat_finish Lose, Left_combat]"
    using finish_double_knockout[OF ok ne dead tm, of 2]
    by (simp add: knock_out_def duel_def combatant_def)
  ultimately show ?thesis using ok vals facts by simp
qed

subsection \<open>Calling finish again\<close>

text \<open>
  \<^verbatim>\<open>finish\<close> sets \<^verbatim>\<open>finished\<close> but never reads it, and \<^verbatim>\<open>at_stop\<close> leaves the roster as
  it was. A second call therefore finds the timer inactive and cancels nothing, but it
  picks the winners and notifies and cleans up every character once more.
\<close>

lemma finish_again:
  assumes "roster_ok st" and "r \<in> set (dict_values (characters st))"
  shows "msgs (heap (finish (finish st)) r) =
           msgs (heap (finish st) r) @
             (if has_account (heap st r)
              then [Combat_finish (outcome (finish st) r), Left_combat] else [])"
    and "cancels (finish (finish st)) = cancels (finish st)"
proof -
  have d: "distinct (dict_values (characters st))"
    using assms(1) by (rule roster_ok_distinct)
  then have d': "distinct (dict_values (characters (finish st)))"
    by (simp add: finish_keeps_roster)
  show "msgs (heap (finish (finish st)) r) =
           msgs (heap (finish st) r) @
             (if has_account (heap st r)
              then [Combat_finish (outcome (finish st) r), Left_combat] else [])"
    using assms(2)
    by (simp add: finish_heap[OF d'] finish_keeps_roster) (simp add: finish_heap[OF d])
  show "cancels (finish (finish st)) = cancels (finish st)"
    by (simp add: finish_frame[OF d'] finish_frame[OF d])
qed

lemmas run_defs = finish_def stop_def at_stop_def cleanup_character_def cmdset_delete_def
  show_status_def msg_def upd_def set_combat_results_def timer_active_def timer_cancel_def
  Let_def dict_values_def knock_out_def duel_def combatant_def at_timeout_def
  set_combat_draw_def at_server_shutdown_def prepare_skill_def can_finish_def lethal_skill_def
  finishing_skill_def

text \<open>
  Claim C1. \<^verbatim>\<open>finish\<close> called twice on the duel in which character 2 has died: the timer
  is cancelled once, but characters 1 and 2 receive their \<^verbatim>\<open>win\<close> and \<^verbatim>\<open>lose\<close>
  notifications, and \<^verbatim>\<open>left_combat\<close>, twice.
\<close>

theorem finish_twice_notifies_twice:
  "can_finish (knock_out 2 duel) \<and>
   msgs (heap (finish (knock_out 2 duel)) 1) = [Combat_finish Win, Left_combat] \<and>
   msgs (heap (finish (finish (knock_out 2 duel))) 1) =
     [Combat_finish Win, Left_combat, Combat_finish Win, Left_combat] \<and>
   msgs (heap (finish (finish (knock_out 2 duel))) 2) =
     [Combat_finish Lose, Left_combat, Combat_finish Lose, Left_combat] \<and>
   cancels (finish (knock_out 2 duel)) = 1 \<and>
   cancels (finish (finish (knock_out 2 duel))) = 1"
  by (simp add: run_defs)

text \<open>
  The scenario of the spec: character 1 casts a lethal skill on character 2 in the duel.
  \<^verbatim>\<open>prepare_skill\<close> finds that the combat can finish and finishes it, team 1 wins.
\<close>

lemma lethal_skill_scenario:
  "msgs (heap (prepare_skill lethal_skill ''hit'' (Some 1) (Some 2) duel) 1) =
     [Combat_finish Win, Left_combat]"
  "msgs (heap (prepare_skill lethal_skill ''hit'' (Some 1) (Some 2) duel) 2) =
     [Combat_finish Lose, Left_combat]"
  "finished (prepare_skill lethal_skill ''hit'' (Some 1) (Some 2) duel)"
  "stops (prepare_skill lethal_skill ''hit'' (Some 1) (Some 2) duel) = 1"
  by (simp_all add: run_defs)

text \<open>
  The second call is reached by \<^verbatim>\<open>prepare_skill\<close> itself when the skill has already
  finished the combat: its own check \<^verbatim>\<open>can_finish\<close> still holds on the roster that was
  left in place, and \<^verbatim>\<open>finish\<close> runs again.
\<close>

lemma finish_reentered_by_skill:
  "msgs (heap (prepare_skill finishing_skill ''hit'' (Some 1) (Some 2) duel) 1) =
     [Combat_finish Win, Left_combat, Combat_finish Win, Left_combat]"
  "stops (prepare_skill finishing_skill ''hit'' (Some 1) (Some 2) duel) = 2"
  by (simp_all add: run_defs)

section \<open>Timeout\<close>

text \<open>
  Claim C6. \<^verbatim>\<open>at_timeout\<close> does nothing when \<^verbatim>\<open>finished\<close> is set. Otherwise every
  character of the roster with an account receives \<^verbatim>\<open>draw\<close> and then \<^verbatim>\<open>left_combat\<close>,
  every character of the roster loses its command set and its reference to the handler,
  nothing else changes in the world of characters, the timer is no longer active and
  \<^verbatim>\<open>stop\<close> has been called once.
\<close>

theorem at_timeout_draw:
  "(finished st \<longrightarrow> at_timeout st = st) \<and>
   (\<not> finished st \<and> roster_ok st \<longrightarrow>
      (if r \<in> set (dict_values (characters st))
       then msgs (heap (at_timeout st) r) =
              msgs (heap st r) @
                (if has_account (heap st r) then [Combat_finish Draw, Left_combat] else []) \<and>
            cmdset_combat (heap (at_timeout st) r) = 0 \<and>
            combat_handler (heap (at_timeout st) r) = None
       else heap (at_timeout st) r = heap st r) \<and>
      stops (at_timeout st) = Suc (stops st) \<and>
      \<not> timer_active (at_timeout st))"
proof -
  have "at_timeout st = st" if "finished st"
    using that by (simp add: at_timeout_def)
  moreover have "(if r \<in> set (dict_values (characters st))
       then msgs (heap (at_timeout st) r) =
              msgs (heap st r) @
                (if has_account (heap st r) then [Combat_finish Draw, Left_combat] else []) \<and>
            cmdset_combat (heap (at_timeout st) r) = 0 \<and>
            combat_handler (heap (at_timeout st) r) = None
       else heap (at_timeout st) r = heap st r) \<and>
      stops (at_timeout st) = Suc (stops st) \<and>
      \<not> timer_active (at_timeout st)" if "\<not> finished st" "roster_ok st"
  proof -
    have d: "distinct (dict_values (characters st))"
      using that(2) by (rule roster_ok_distinct)
    show ?thesis
      using that(1) d by (simp add: at_timeout_def set_combat_draw_eq stop_eq)
  qed
  ultimately show ?thesis by blast
qed

theorem at_timeout_draw_witness:
  "\<not> finished duel \<and> roster_ok duel \<and>
   msgs (heap (at_timeout duel) 1) = [Combat_finish Draw, Left_combat] \<and>
   cmdset_combat (heap (at_timeout duel) 1) = 0 \<and>
   combat_handler (heap (at_timeout duel) 1) = None \<and>
   stops (at_timeout duel) = 1 \<and>
   finished (finish duel) \<and> at_timeout (finish duel) = finish duel"
proof -
  have nf: "\<not> finished duel" by (simp add: duel_def)
  have ok: "roster_ok duel"
    by (simp add: roster_ok_def duel_def combatant_def)
  have fin: "finished (finish duel)"
    by (simp add: finish_frame[OF roster_ok_distinct[OF ok]])
  have "msgs (heap (at_timeout duel) 1) = [Combat_finish Draw, Left_combat] \<and>
        cmdset_combat (heap (at_timeout duel) 1) = 0 \<and>
        combat_handler (heap (at_timeout duel) 1) = None \<and>
        stops (at_timeout duel) = 1"
    using at_timeout_draw[of duel 1] nf ok
    by (simp add: duel_def combatant_def)
  moreover have "at_timeout (finish duel) = finish duel"
    using at_timeout_draw[of "finish duel" 1] fin by simp
  ultimately show ?thesis using nf ok fin by simp
qed

section \<open>What the termination paths leave behind\<close>

text \<open>
  All three paths go through \<^verbatim>\<open>at_stop\<close>, which cleans every character of the roster:
  no command set, no reference to the handler.
\<close>

lemma termination_releases:
  assumes "roster_ok st" and "r \<in> set (dict_values (characters st))"
  shows "cmdset_combat (heap (finish st) r) = 0 \<and> combat_handler (heap (finish st) r) = None"
    and "cmdset_combat (heap (at_server_shutdown st) r) = 0 \<and>
         combat_handler (heap (at_server_shutdown st) r) = None"
    and "\<not> finished st \<Longrightarrow>
         cmdset_combat (heap (at_timeout st) r) = 0 \<and>
         combat_handler (heap (at_timeout st) r) = None"
proof -
  have d: "distinct (dict_values (characters st))"
    using assms(1) by (rule roster_ok_distinct)
  show "cmdset_combat (heap (finish st) r) = 0 \<and> combat_handler (heap (finish st) r) = None"
    using assms(2) by (simp add: finish_heap[OF d])
  show "cmdset_combat (heap (at_server_shutdown st) r) = 0 \<and>
        combat_handler (heap (at_server_shutdown st) r) = None"
    using assms(2) by (simp add: at_server_shutdown_def stop_heap[OF assms(1)])
  show "cmdset_combat (heap (at_timeout st) r) = 0 \<and>
        combat_handler (heap (at_timeout st) r) = None" if "\<not> finished st"
    using that assms(2) d by (simp add: at_timeout_def set_combat_draw_eq stop_eq)
qed

text \<open>
  Claim C2. The roster itself is not emptied: \<^verbatim>\<open>_cleanup_character\<close> does not remove
  the character from \<^verbatim>\<open>self.characters\<close> and \<^verbatim>\<open>at_stop\<close> does not either. After
  \<^verbatim>\<open>finish\<close>, after \<^verbatim>\<open>at_timeout\<close> and after \<^verbatim>\<open>at_server_shutdown\<close> the roster of the
  duel still holds both characters.
\<close>

theorem roster_kept_after_termination:
  "characters (finish (knock_out 2 duel)) = [(101, 1), (102, 2)] \<and>
   characters (at_timeout duel) = [(101, 1), (102, 2)] \<and>
   characters (at_server_shutdown duel) = [(101, 1), (102, 2)]"
  by (simp add: run_defs)

section \<open>Actions after the end of the combat\<close>

text \<open>
  After \<^verbatim>\<open>finish\<close> the flag \<^verbatim>\<open>finished\<close> is set and \<^verbatim>\<open>prepare_skill\<close> returns at once,
  whatever \<^verbatim>\<open>cast_skill\<close> would do.
\<close>

lemma prepare_skill_after_finish:
  "prepare_skill cast_skill skill_key caller target (finish st) = finish st"
  by (simp add: prepare_skill_def finish_finished)

text \<open>
  Claim C3. Only \<^verbatim>\<open>finish\<close> sets \<^verbatim>\<open>finished\<close>. After \<^verbatim>\<open>at_timeout\<close> or
  \<^verbatim>\<open>at_server_shutdown\<close> on the duel the flag is still false, so a later
  \<^verbatim>\<open>prepare_skill\<close> casts the skill: character 2 dies, and after the draw character 1 is
  even told that it has won.
\<close>

theorem late_action_after_timeout:
  "\<not> finished (at_timeout duel) \<and>
   alive (heap (at_timeout duel) 2) \<and>
   \<not> alive (heap (prepare_skill lethal_skill ''hit'' (Some 1) (Some 2) (at_timeout duel)) 2) \<and>
   msgs (heap (prepare_skill lethal_skill ''hit'' (Some 1) (Some 2) (at_timeout duel)) 1) =
     [Combat_finish Draw, Left_combat, Combat_finish Win, Left_combat] \<and>
   \<not> finished (at_server_shutdown duel) \<and>
   \<not> alive (heap (prepare_skill lethal_skill ''hit'' (Some 1) (Some 2)
                    (at_server_shutdown duel)) 2)"
  by (simp add: run_defs)

section \<open>Shutdown\<close>

text \<open>
  \<^verbatim>\<open>at_server_shutdown\<close> on a running combat cancels the timer when it is pending and
  cleans every character of the roster; the only message it sends is \<^verbatim>\<open>left_combat\<close>.
\<close>

lemma shutdown_releases:
  assumes "roster_ok st"
  shows "(if r \<in> set (dict_values (characters st))
          then msgs (heap (at_server_shutdown st) r) =
                 msgs (heap st r) @ (if has_account (heap st r) then [Left_combat] else []) \<and>
               cmdset_combat (heap (at_server_shutdown st) r) = 0 \<and>
               combat_handler (heap (at_server_shutdown st) r) = None
          else heap (at_server_shutdown st) r = heap st r) \<and>
         \<not> timer_active (at_server_shutdown st) \<and>
         cancels (at_server_shutdown st) =
           (if timer_active st then Suc (cancels st) else cancels st)"
  using roster_ok_distinct[OF assms]
  by (simp add: at_server_shutdown_def stop_eq)

text \<open>
  Claim C7. Shutdown after \<^verbatim>\<open>finish\<close> or after \<^verbatim>\<open>at_timeout\<close> raises nothing and
  sends no \<^verbatim>\<open>win\<close>, \<^verbatim>\<open>lose\<close> or \<^verbatim>\<open>draw\<close>, but it acts on the characters a second
  time: the roster was not emptied, so character 1 of the duel receives \<^verbatim>\<open>left_combat\<close>
  again and its status is shown again.
\<close>

theorem shutdown_after_finish_repeats_release:
  "msgs (heap (finish (knock_out 2 duel)) 1) = [Combat_finish Win, Left_combat] \<and>
   status_shown (heap (finish (knock_out 2 duel)) 1) = 1 \<and>
   msgs (heap (at_server_shutdown (finish (knock_out 2 duel))) 1) =
     [Combat_finish Win, Left_combat, Left_combat] \<and>
   status_shown (heap (at_server_shutdown (finish (knock_out 2 duel))) 1) = 2 \<and>
   msgs (heap (at_server_shutdown (at_timeout duel)) 1) =
     [Combat_finish Draw, Left_combat, Left_combat]"
  by (simp add: run_defs)

section \<open>Escape\<close>

lemma dict_del_entry:
  assumes "distinct (map fst kvs)" and "(k, v) \<in> set kvs"
  shows "dict_del k kvs = filter (\<lambda>kv. kv \<noteq> (k, v)) kvs"
proof -
  have "fst kv \<noteq> k \<longleftrightarrow> kv \<noteq> (k, v)" if "kv \<in> set kvs" for kv
    using assms that by (metis eq_key_imp_eq_value fst_conv prod.collapse)
  then show ?thesis
    unfolding dict_del_def by (intro filter_cong) auto
qed

text \<open>
  Claim C8. \<^verbatim>\<open>skill_escape\<close> called with a character of the roster removes exactly the
  entry of that character from the roster, sends it \<^verbatim>\<open>escaped\<close> once (and
  \<^verbatim>\<open>left_combat\<close>) when it has an account, takes its command set and its reference to
  the handler, leaves every other character as it was, and neither finishes nor stops
  the combat nor touches the timer, even where \<^verbatim>\<open>can_finish\<close> holds afterwards.
\<close>

theorem skill_escape_frame:
  assumes "roster_ok st" and "(dbref (heap st c), c) \<in> set (characters st)"
  shows "characters (skill_escape (Some c) st) =
           filter (\<lambda>kr. kr \<noteq> (dbref (heap st c), c)) (characters st) \<and>
         msgs (heap (skill_escape (Some c) st) c) =
           msgs (heap st c) @
             (if has_account (heap st c) then [Combat_finish Escaped, Left_combat] else []) \<and>
         cmdset_combat (heap (skill_escape (Some c) st) c) = 0 \<and>
         combat_handler (heap (skill_escape (Some c) st) c) = None \<and>
         (\<forall>r. r \<noteq> c \<longrightarrow> heap (skill_escape (Some c) st) r = heap st r) \<and>
         finished (skill_escape (Some c) st) = finished st \<and>
         stops (skill_escape (Some c) st) = stops st \<and>
         timer (skill_escape (Some c) st) = timer st \<and>
         cancels (skill_escape (Some c) st) = cancels st"
proof -
  let ?k = "dbref (heap st c)"
  have dk: "distinct (map fst (characters st))"
    using assms(1) by (simp add: roster_ok_def)
  have del: "dict_del ?k (characters st) = filter (\<lambda>kr. kr \<noteq> (?k, c)) (characters st)"
    using dk assms(2) by (rule dict_del_entry)
  have inr: "dict_contains ?k (characters st)"
    using assms(2) by (force simp: dict_contains_def)
  have eq: "skill_escape (Some c) st =
          (upd c released (upd c (notified (Combat_finish Escaped)) st))
            \<lparr>characters := dict_del ?k (characters st)\<rparr>"
    using inr
    by (simp add: skill_escape_def Let_def notify_upd cleanup_character_upd)
  show ?thesis
    unfolding eq by (simp add: del)
qed

theorem skill_escape_frame_witness:
  "roster_ok trio \<and> (dbref (heap trio 3), 3) \<in> set (characters trio) \<and>
   characters (skill_escape (Some 3) trio) = [(101, 1), (102, 2)] \<and>
   msgs (heap (skill_escape (Some 3) trio) 3) = [Combat_finish Escaped, Left_combat] \<and>
   heap (skill_escape (Some 3) trio) 1 = heap trio 1 \<and>
   heap (skill_escape (Some 3) trio) 2 = heap trio 2 \<and>
   \<not> can_finish (skill_escape (Some 3) trio) \<and>
   \<not> finished (skill_escape (Some 3) trio) \<and>
   roster_ok duel \<and> (dbref (heap duel 2), 2) \<in> set (characters duel) \<and>
   can_finish (skill_escape (Some 2) duel) \<and>
   \<not> finished (skill_escape (Some 2) duel) \<and>
   stops (skill_escape (Some 2) duel) = 0"
proof -
  have ok: "roster_ok trio"
    by (simp add: roster_ok_def trio_def duel_def combatant_def)
  have mem: "(dbref (heap trio 3), 3) \<in> set (characters trio)"
    by (simp add: trio_def duel_def combatant_def)
  have ok2: "roster_ok duel"
    by (simp add: roster_ok_def duel_def combatant_def)
  have mem2: "(dbref (heap duel 2), 2) \<in> set (characters duel)"
    by (simp add: duel_def combatant_def)
  have three: "characters (skill_escape (Some 3) trio) = [(101, 1), (102, 2)] \<and>
      msgs (heap (skill_escape (Some 3) trio) 3) = [Combat_finish Escaped, Left_combat] \<and>
      heap (skill_escape (Some 3) trio) 1 = heap trio 1 \<and>
      heap (skill_escape (Some 3) trio) 2 = heap trio 2 \<and>
      \<not> finished (skill_escape (Some 3) trio)"
    using skill_escape_frame[OF ok mem]
    by (simp add: trio_def duel_def combatant_def)
  then have open3: "\<not> can_finish (skill_escape (Some 3) trio)"
    by (simp add: can_finish_def trio_def duel_def combatant_def)
  have two: "characters (skill_escape (Some 2) duel) = [(101, 1)] \<and>
      heap (skill_escape (Some 2) duel) 1 = heap duel 1 \<and>
      \<not> finished (skill_escape (Some 2) duel) \<and>
      stops (skill_escape (Some 2) duel) = 0"
    using skill_escape_frame[OF ok2 mem2]
    by (simp add: duel_def combatant_def)
  then have can2: "can_finish (skill_escape (Some 2) duel)"
    by (simp add: can_finish_def duel_def combatant_def)
  show ?thesis
    using ok mem ok2 mem2 three open3 two can2 by simp
qed

section \<open>Admission\<close>

lemma entered_simps [simp]:
  "combat_handler (entered h app c) = Some h"
  "cmdset_combat (entered h app c) = Suc (cmdset_combat c)"
  "msgs (entered h app c) =
     (if has_account c then msgs c @ [Joined_combat, Combat_info app] else msgs c)"
  "has_account (entered h app c) = has_account c"
  "team (entered h app c) = team c"
  "alive (entered h app c) = alive c"
  "dbref (entered h app c) = dbref c"
  "name (entered h app c) = name c"
  "max_hp (entered h app c) = max_hp c"
  "hp (entered h app c) = hp c"
  "icon (entered h app c) = icon c"
  by (simp_all add: entered_def)

lemma get_appearance_msg [simp]: "get_appearance (msg r p st) = get_appearance st"
  by (simp add: get_appearance_def msg_def)

lemma enter_combat_upd:
  "enter_combat r st = upd r (entered (self_ref st) (get_appearance st)) st"
proof -
  have "get_appearance (cmdset_add r (upd r (\<lambda>c. c\<lparr>combat_handler := Some (self_ref st)\<rparr>) st))
          = get_appearance st"
    by (simp add: get_appearance_def cmdset_add_def)
  then show ?thesis
    by (simp add: enter_combat_def Let_def show_combat_def entered_def)
       (simp add: cmdset_add_def msg_def upd_def entered_def)
qed

lemma get_appearance_entered [simp]:
  "get_appearance (upd r (entered h app) st) = get_appearance st"
  by (simp add: get_appearance_def)

lemma fold_enter_combat:
  "distinct rs \<Longrightarrow>
   fold enter_combat rs st = on_chars (set rs) (entered (self_ref st) (get_appearance st)) st"
proof (induction rs arbitrary: st)
  case Nil
  show ?case by (simp add: on_chars_def)
next
  case (Cons r rs)
  let ?f = "entered (self_ref st) (get_appearance st)"
  have "fold enter_combat (r # rs) st = fold enter_combat rs (upd r ?f st)"
    by (simp add: enter_combat_upd)
  also have "\<dots> = on_chars (set rs) ?f (upd r ?f st)"
    using Cons by simp
  also have "\<dots> = on_chars (set (r # rs)) ?f st"
    using Cons.prems by (auto simp: on_chars_def upd_def fun_eq_iff)
  finally show ?case .
qed

lemma admit_teams_pairs:
  "admit_teams arrange teams st =
     fold (\<lambda>(t, r). admit_character arrange t r) (team_pairs teams) st"
proof -
  have inner: "fold (admit_character arrange t) rs s =
               fold (\<lambda>(t, r). admit_character arrange t r) (map (Pair t) rs) s" for t rs s
    by (simp add: fold_map comp_def)
  show ?thesis
    unfolding admit_teams_def team_pairs_def
    by (induction teams arbitrary: st) (auto simp: inner)
qed

lemma dict_store_new: "k \<notin> fst ` set kvs \<Longrightarrow> dict_store k v kvs = kvs @ [(k, v)]"
  by (induction kvs) auto

lemma rearranges_keys:
  assumes "rearranges arrange" and "distinct (map fst kvs)"
  shows "distinct (map fst (arrange kvs))"
proof -
  have s: "set (arrange kvs) = set kvs" and l: "length (arrange kvs) = length kvs"
    using assms(1) by (simp_all add: rearranges_def)
  have "card (set (map fst (arrange kvs))) = card (set (map fst kvs))"
    by (simp add: s)
  also have "\<dots> = length (map fst kvs)"
    using assms(2) by (rule distinct_card)
  also have "\<dots> = length (map fst (arrange kvs))"
    by (simp add: l)
  finally show ?thesis by (rule card_distinct)
qed

lemma dict_set_new:
  assumes "rearranges arrange" and "k \<notin> fst ` set kvs" and "distinct (map fst kvs)"
  shows "set (dict_set arrange k v kvs) = insert (k, v) (set kvs)"
    and "distinct (map fst (dict_set arrange k v kvs))"
proof -
  have st: "dict_store k v kvs = kvs @ [(k, v)]"
    using assms(2) by (rule dict_store_new)
  show "set (dict_set arrange k v kvs) = insert (k, v) (set kvs)"
    using assms(1) by (simp add: dict_set_def st rearranges_def)
  have "distinct (map fst (kvs @ [(k, v)]))"
    using assms(2,3) by simp
  then have "distinct (map fst (arrange (kvs @ [(k, v)])))"
    by (rule rearranges_keys[OF assms(1)])
  then show "distinct (map fst (dict_set arrange k v kvs))"
    by (simp add: dict_set_def st)
qed

lemma admit_character_eq:
  "admit_character arrange t r st =
     st\<lparr>characters := dict_set arrange (dbref (heap st r)) r (characters st),
        heap := (heap st)(r := (heap st r)\<lparr>team := t\<rparr>)\<rparr>"
  by (simp add: admit_character_def set_team_def upd_def Let_def)

lemma fold_admit:
  assumes "rearranges arrange"
    and "distinct (map (\<lambda>p. dbref (heap st (snd p))) ps)"
    and "\<forall>p \<in> set ps. dbref (heap st (snd p)) \<notin> fst ` set (characters st)"
    and "distinct (map fst (characters st))"
  shows "\<exists>cs. fold (\<lambda>(t, r). admit_character arrange t r) ps st =
                 st\<lparr>characters := cs, heap := assigned ps (heap st)\<rparr> \<and>
               set cs = set (characters st) \<union>
                        (\<lambda>p. (dbref (heap st (snd p)), snd p)) ` set ps \<and>
               distinct (map fst cs)"
  using assms(2-)
proof (induction ps arbitrary: st)
  case Nil
  have "assigned [] (heap st) = heap st"
    by (simp add: fun_eq_iff assigned_def)
  with Nil show ?case
    by (intro exI[of _ "characters st"]) simp
next
  case (Cons p ps)
  obtain t r where p: "p = (t, r)" by (cases p)
  let ?k = "dbref (heap st r)"
  let ?st' = "admit_character arrange t r st"
  have db: "dbref (heap ?st' x) = dbref (heap st x)" for x
    by (simp add: admit_character_eq)
  have knew: "?k \<notin> fst ` set (characters st)"
    using Cons.prems(2) p by simp
  have ch: "set (characters ?st') = insert (?k, r) (set (characters st))"
    and dk: "distinct (map fst (characters ?st'))"
    using dict_set_new[OF assms(1) knew Cons.prems(3)]
    by (simp_all add: admit_character_eq)
  have rnot: "r \<notin> snd ` set ps"
    using Cons.prems(1) p by (auto simp: image_iff)
  have d': "distinct (map (\<lambda>p. dbref (heap ?st' (snd p))) ps)"
    using Cons.prems(1) by (simp add: db)
  have n': "\<forall>q \<in> set ps. dbref (heap ?st' (snd q)) \<notin> fst ` set (characters ?st')"
    using Cons.prems(1,2) p by (auto simp: db ch image_iff)
  have mo: "map_of (map (\<lambda>(t, r). (r, t)) ps) r = None"
    using rnot by (auto simp: map_of_eq_None_iff image_iff)
  have hp: "assigned ps ((heap st)(r := (heap st r)\<lparr>team := t\<rparr>)) =
            assigned ((t, r) # ps) (heap st)"
    using mo by (auto simp: assigned_def fun_eq_iff split: option.splits)
  from Cons.IH[OF d' n' dk] obtain cs where
    run: "fold (\<lambda>(t, r). admit_character arrange t r) ps ?st' =
          ?st'\<lparr>characters := cs, heap := assigned ps (heap ?st')\<rparr>"
    and cs: "set cs = set (characters ?st') \<union>
                      (\<lambda>p. (dbref (heap ?st' (snd p)), snd p)) ` set ps"
    and dcs: "distinct (map fst cs)"
    by blast
  have "fold (\<lambda>(t, r). admit_character arrange t r) (p # ps) st =
        fold (\<lambda>(t, r). admit_character arrange t r) ps ?st'"
    by (simp add: p)
  also have "\<dots> = ?st'\<lparr>characters := cs, heap := assigned ps (heap ?st')\<rparr>"
    by (rule run)
  also have "\<dots> = st\<lparr>characters := cs, heap := assigned (p # ps) (heap st)\<rparr>"
    unfolding p by (simp add: admit_character_eq hp)
  finally have eq: "fold (\<lambda>(t, r). admit_character arrange t r) (p # ps) st =
        st\<lparr>characters := cs, heap := assigned (p # ps) (heap st)\<rparr>" .
  have "set cs = insert (?k, r) (set (characters st)) \<union>
                   (\<lambda>p. (dbref (heap st (snd p)), snd p)) ` set ps"
    unfolding cs ch by (simp only: db)
  then have "set cs = set (characters st) \<union>
                   (\<lambda>p. (dbref (heap st (snd p)), snd p)) ` set (p # ps)"
    unfolding p by auto
  with eq have "fold (\<lambda>(t, r). admit_character arrange t r) (p # ps) st =
        st\<lparr>characters := cs, heap := assigned (p # ps) (heap st)\<rparr> \<and>
      set cs = set (characters st) \<union>
                   (\<lambda>p. (dbref (heap st (snd p)), snd p)) ` set (p # ps)"
    by blast
  moreover note dcs
  ultimately show ?case by blast
qed

lemma snd_team_pairs: "map snd (team_pairs teams) = concat (map snd teams)"
  unfolding team_pairs_def by (induction teams) (auto simp: comp_def)

lemma team_pairs_mem:
  "(tm, rs) \<in> set teams \<Longrightarrow> r \<in> set rs \<Longrightarrow> (tm, r) \<in> set (team_pairs teams)"
  unfolding team_pairs_def by force

lemma assigned_member:
  assumes "distinct (map snd ps)" and "(t, r) \<in> set ps"
  shows "assigned ps h r = (h r)\<lparr>team := t\<rparr>"
proof -
  have "distinct (map fst (map (\<lambda>(t, r). (r, t)) ps))"
    using assms(1) by (simp add: comp_def case_prod_unfold)
  moreover have "(r, t) \<in> set (map (\<lambda>(t, r). (r, t)) ps)"
    using assms(2) by force
  ultimately have "map_of (map (\<lambda>(t, r). (r, t)) ps) r = Some t"
    by (rule map_of_is_SomeI)
  then show ?thesis by (simp add: assigned_def)
qed

lemma assigned_frame:
  "dbref (assigned ps h x) = dbref (h x)"
  "name (assigned ps h x) = name (h x)"
  "max_hp (assigned ps h x) = max_hp (h x)"
  "hp (assigned ps h x) = hp (h x)"
  "icon (assigned ps h x) = icon (h x)"
  "has_account (assigned ps h x) = has_account (h x)"
  "msgs (assigned ps h x) = msgs (h x)"
  "cmdset_combat (assigned ps h x) = cmdset_combat (h x)"
  by (simp_all add: assigned_def split: option.splits)

lemma get_appearance_on_entered [simp]:
  "get_appearance (on_chars R (entered h app) st) = get_appearance st"
  by (simp add: get_appearance_def)

lemma get_appearance_timer [simp]:
  "get_appearance (st\<lparr>timer := x\<rparr>) = get_appearance st"
  by (simp add: get_appearance_def)

lemma admitted_values:
  assumes "admitted st teams cs"
  shows "set (dict_values cs) = set (concat (map snd teams))"
    and "distinct (dict_values cs)"
proof -
  have s: "set cs = (\<lambda>r. (dbref (heap st r), r)) ` set (concat (map snd teams))"
    and d: "distinct (map fst cs)"
    using assms by (simp_all add: admitted_def)
  show "set (dict_values cs) = set (concat (map snd teams))"
    by (simp add: dict_values_def s image_image)
  have "inj_on snd (set cs)"
    unfolding s by (rule inj_onI) auto
  moreover have "distinct cs" using d by (simp add: distinct_map)
  ultimately show "distinct (dict_values cs)"
    by (simp add: dict_values_def distinct_map)
qed

lemma set_combat_eq:
  assumes "rearranges arrange"
    and "distinct (map (\<lambda>r. dbref (heap st r)) (concat (map snd teams)))"
  shows "\<exists>cs. admitted st teams cs \<and>
           set_combat arrange teams d t (at_script_creation st) =
           (let st2 = st\<lparr>desc := d, interval := 0, persistent := False,
                          characters := cs,
                          finished := False, timeout := t, timer := None,
                          heap := assigned (team_pairs teams) (heap st)\<rparr>;
                st3 = on_chars (set (concat (map snd teams)))
                        (entered (self_ref st) (get_appearance st2)) st2
            in if t = 0 then Inr st3
               else if t < 0 then Inl AssertionError
               else Inr (st3\<lparr>timer := Some \<lparr>delay = t, called = False, cancelled = False\<rparr>\<rparr>))"
proof -
  let ?st1 = "(at_script_creation st)\<lparr>desc := d, timeout := t\<rparr>"
  let ?ps = "team_pairs teams"
  have d1: "distinct (map (\<lambda>p. dbref (heap ?st1 (snd p))) ?ps)"
    using assms(2) by (simp add: at_script_creation_def flip: snd_team_pairs) (simp add: comp_def)
  have n1: "\<forall>p \<in> set ?ps. dbref (heap ?st1 (snd p)) \<notin> fst ` set (characters ?st1)"
    by (simp add: at_script_creation_def)
  have k1: "distinct (map fst (characters ?st1))"
    by (simp add: at_script_creation_def)
  from fold_admit[OF assms(1) d1 n1 k1] obtain cs where
    run: "admit_teams arrange teams ?st1 =
          ?st1\<lparr>characters := cs, heap := assigned ?ps (heap ?st1)\<rparr>"
    and cs: "set cs = set (characters ?st1) \<union>
                      (\<lambda>p. (dbref (heap ?st1 (snd p)), snd p)) ` set ?ps"
    and dcs: "distinct (map fst cs)"
    unfolding admit_teams_pairs by blast
  have "set (concat (map snd teams)) = snd ` set ?ps"
    by (simp flip: snd_team_pairs)
  then have adm: "admitted st teams cs"
    using dcs by (simp add: admitted_def cs at_script_creation_def image_image)
  have st2: "admit_teams arrange teams ?st1 =
        st\<lparr>desc := d, interval := 0, persistent := False,
           characters := cs,
           finished := False, timeout := t, timer := None,
           heap := assigned ?ps (heap st)\<rparr>"
    unfolding run by (simp add: at_script_creation_def)
  have "set_combat arrange teams d t (at_script_creation st) =
           (let st2 = st\<lparr>desc := d, interval := 0, persistent := False,
                          characters := cs,
                          finished := False, timeout := t, timer := None,
                          heap := assigned (team_pairs teams) (heap st)\<rparr>;
                st3 = on_chars (set (concat (map snd teams)))
                        (entered (self_ref st) (get_appearance st2)) st2
            in if t = 0 then Inr st3
               else if t < 0 then Inl AssertionError
               else Inr (st3\<lparr>timer := Some \<lparr>delay = t, called = False, cancelled = False\<rparr>\<rparr>))"
    unfolding set_combat_def Let_def st2 start_combat_def
    by (simp add: admitted_values[OF adm] fold_enter_combat callLater_def)
  with adm show ?thesis by blast
qed

text \<open>
  Admission establishes the roster invariant, in whatever order the dict is read.
\<close>

lemma set_combat_roster_ok:
  assumes "rearranges arrange"
    and "distinct (map (\<lambda>r. dbref (heap st r)) (concat (map snd teams)))"
    and "set_combat arrange teams d t (at_script_creation st) = Inr st'"
  shows "roster_ok st'"
proof -
  from set_combat_eq[OF assms(1,2), of d t] obtain cs where
    adm: "admitted st teams cs"
    and ch: "characters st' = cs"
    and db: "\<And>x. dbref (heap st' x) = dbref (heap st x)"
    using assms(3) unfolding Let_def
    by (auto split: if_splits simp: assigned_frame)
  show ?thesis
    using adm by (auto simp: roster_ok_def db ch admitted_def)
qed

text \<open>
  Claim C9. \<^verbatim>\<open>set_combat\<close> on a newly created handler, with characters of distinct
  \<^verbatim>\<open>dbref\<close> and a timeout that is not negative, in whatever order the dict is read:
  every character of every team gets its team, an entry in the roster, the reference to
  the handler and one more combat command set, and, when it has an account,
  \<^verbatim>\<open>joined_combat\<close> followed by the appearance of the whole combat. That appearance
  carries the description and the timeout given to \<^verbatim>\<open>set_combat\<close> and one entry for
  each admitted character, with its \<^verbatim>\<open>dbref\<close>, name, team, health and icon; the roster
  holds exactly the admitted characters. \<^verbatim>\<open>finished\<close> is false afterwards, and the timer
  is pending exactly when the timeout is positive.
\<close>

theorem set_combat_admits:
  assumes "rearranges arrange"
    and "distinct (map (\<lambda>r. dbref (heap st r)) (concat (map snd teams)))"
    and "0 \<le> t"
  shows "\<exists>st'. set_combat arrange teams d t (at_script_creation st) = Inr st' \<and>
           \<not> finished st' \<and>
           (timer_active st' \<longleftrightarrow> 0 < t) \<and>
           set (characters st') =
             (\<lambda>r. (dbref (heap st r), r)) ` set (concat (map snd teams)) \<and>
           distinct (map fst (characters st')) \<and>
           app_desc (get_appearance st') = d \<and>
           app_timeout (get_appearance st') = t \<and>
           length (app_characters (get_appearance st')) = length (concat (map snd teams)) \<and>
           (\<forall>(tm, rs) \<in> set teams. \<forall>r \<in> set rs.
              team (heap st' r) = tm \<and>
              combat_handler (heap st' r) = Some (self_ref st) \<and>
              cmdset_combat (heap st' r) = Suc (cmdset_combat (heap st r)) \<and>
              msgs (heap st' r) =
                msgs (heap st r) @
                  (if has_account (heap st r)
                   then [Joined_combat, Combat_info (get_appearance st')] else []) \<and>
              \<lparr>info_dbref = dbref (heap st r), info_name = name (heap st r),
               info_team = tm, info_max_hp = max_hp (heap st r),
               info_hp = hp (heap st r), info_icon = icon (heap st r)\<rparr>
                \<in> set (app_characters (get_appearance st')))"
proof -
  let ?ps = "team_pairs teams"
  let ?rs = "concat (map snd teams)"
  from set_combat_eq[OF assms(1,2), of d t] obtain cs where
    adm: "admitted st teams cs"
    and eq: "set_combat arrange teams d t (at_script_creation st) =
           (let st2 = st\<lparr>desc := d, interval := 0, persistent := False,
                          characters := cs,
                          finished := False, timeout := t, timer := None,
                          heap := assigned (team_pairs teams) (heap st)\<rparr>;
                st3 = on_chars (set (concat (map snd teams)))
                        (entered (self_ref st) (get_appearance st2)) st2
            in if t = 0 then Inr st3
               else if t < 0 then Inl AssertionError
               else Inr (st3\<lparr>timer := Some \<lparr>delay = t, called = False, cancelled = False\<rparr>\<rparr>))"
    by blast
  let ?st2 = "st\<lparr>desc := d, interval := 0, persistent := False,
                 characters := cs,
                 finished := False, timeout := t, timer := None,
                 heap := assigned ?ps (heap st)\<rparr>"
  let ?st3 = "on_chars (set ?rs) (entered (self_ref st) (get_appearance ?st2)) ?st2"
  let ?st' = "if t = 0 then ?st3
              else ?st3\<lparr>timer := Some \<lparr>delay = t, called = False, cancelled = False\<rparr>\<rparr>"
  have run: "set_combat arrange teams d t (at_script_creation st) = Inr ?st'"
    using assms(3) by (simp add: eq Let_def)
  have app: "get_appearance ?st' = get_appearance ?st2"
    by simp
  have vals: "set (dict_values cs) = set ?rs" and dv: "distinct (dict_values cs)"
    using admitted_values[OF adm] by simp_all
  have drs: "distinct ?rs"
    using assms(2) by (simp add: distinct_map)
  have dps: "distinct (map snd ?ps)"
    using drs by (simp add: snd_team_pairs)
  have len: "length (app_characters (get_appearance ?st2)) = length ?rs"
  proof -
    have "length (dict_values cs) = card (set (dict_values cs))"
      using dv by (simp add: distinct_card)
    also have "\<dots> = length ?rs"
      unfolding vals using drs by (rule distinct_card)
    finally show ?thesis by (simp add: get_appearance_def)
  qed
  have chars: "set (characters ?st') = (\<lambda>r. (dbref (heap st r), r)) ` set ?rs"
    "distinct (map fst (characters ?st'))"
    using adm by (simp_all add: admitted_def)
  have each: "team (heap ?st' r) = tm \<and>
              combat_handler (heap ?st' r) = Some (self_ref st) \<and>
              cmdset_combat (heap ?st' r) = Suc (cmdset_combat (heap st r)) \<and>
              msgs (heap ?st' r) =
                msgs (heap st r) @
                  (if has_account (heap st r)
                   then [Joined_combat, Combat_info (get_appearance ?st')] else []) \<and>
              \<lparr>info_dbref = dbref (heap st r), info_name = name (heap st r),
               info_team = tm, info_max_hp = max_hp (heap st r),
               info_hp = hp (heap st r), info_icon = icon (heap st r)\<rparr>
                \<in> set (app_characters (get_appearance ?st'))"
    if "(tm, rs) \<in> set teams" "r \<in> set rs" for tm rs r
  proof -
    have mem: "(tm, r) \<in> set ?ps" using that by (rule team_pairs_mem)
    have inr: "r \<in> set ?rs" using that by force
    have asg: "assigned ?ps (heap st) r = (heap st r)\<lparr>team := tm\<rparr>"
      using dps mem by (rule assigned_member)
    have h: "heap ?st' r = entered (self_ref st) (get_appearance ?st2) ((heap st r)\<lparr>team := tm\<rparr>)"
      using inr by (simp add: asg)
    have "r \<in> set (dict_values cs)" using inr vals by simp
    then have "\<lparr>info_dbref = dbref (heap ?st2 r), info_name = name (heap ?st2 r),
               info_team = team (heap ?st2 r), info_max_hp = max_hp (heap ?st2 r),
               info_hp = hp (heap ?st2 r), info_icon = icon (heap ?st2 r)\<rparr>
                \<in> set (app_characters (get_appearance ?st2))"
      unfolding get_appearance_def by simp
    then have info: "\<lparr>info_dbref = dbref (heap st r), info_name = name (heap st r),
               info_team = tm, info_max_hp = max_hp (heap st r),
               info_hp = hp (heap st r), info_icon = icon (heap st r)\<rparr>
                \<in> set (app_characters (get_appearance ?st2))"
      by (simp add: asg)
    show ?thesis unfolding h app using info by simp
  qed
  have "\<not> finished ?st'" by simp
  moreover have "timer_active ?st' \<longleftrightarrow> 0 < t"
    using assms(3) by (simp add: timer_active_def)
  moreover have "app_desc (get_appearance ?st') = d" "app_timeout (get_appearance ?st') = t"
    unfolding app by (simp_all add: get_appearance_def)
  moreover have "length (app_characters (get_appearance ?st')) = length ?rs"
    unfolding app by (rule len)
  ultimately show ?thesis
    using run chars each by (intro exI[of _ ?st']) blast
qed

theorem set_combat_admits_witness:
  "rearranges (rev :: (nat \<times> cref) list \<Rightarrow> (nat \<times> cref) list) \<and>
   distinct (map (\<lambda>r. dbref (heap lobby r)) (concat (map snd [(Some 1, [1]), (Some 2, [2])]))) \<and>
   (0::int) \<le> 5 \<and>
   (\<exists>st'. set_combat rev [(Some 1, [1]), (Some 2, [2])] ''duel'' 5
            (at_script_creation lobby) = Inr st' \<and>
      \<not> finished st' \<and> timer_active st' \<and>
      set (characters st') = {(101, 1), (102, 2)} \<and>
      team (heap st' 2) = Some 2 \<and>
      combat_handler (heap st' 2) = Some 7 \<and>
      cmdset_combat (heap st' 2) = 1 \<and>
      msgs (heap st' 2) = [Joined_combat, Combat_info (get_appearance st')] \<and>
      app_desc (get_appearance st') = ''duel'' \<and>
      app_timeout (get_appearance st') = 5 \<and>
      length (app_characters (get_appearance st')) = 2 \<and>
      \<lparr>info_dbref = 101, info_name = ''fighter'', info_team = Some 1, info_max_hp = 10,
       info_hp = 10, info_icon = None\<rparr> \<in> set (app_characters (get_appearance st')) \<and>
      \<lparr>info_dbref = 102, info_name = ''fighter'', info_team = Some 2, info_max_hp = 10,
       info_hp = 10, info_icon = None\<rparr> \<in> set (app_characters (get_appearance st')))"
proof -
  have r: "rearranges (rev :: (nat \<times> cref) list \<Rightarrow> (nat \<times> cref) list)"
    by (simp add: rearranges_def)
  have d: "distinct (map (\<lambda>r. dbref (heap lobby r))
             (concat (map snd [(Some 1, [1]), (Some 2, [2::nat])])))"
    by (simp add: lobby_def newcomer_def)
  have t: "(0::int) \<le> 5" by simp
  from set_combat_admits[OF r d t, of "''duel''"]
  obtain st' where
    "set_combat rev [(Some 1, [1]), (Some 2, [2])] ''duel'' 5 (at_script_creation lobby) = Inr st'"
    "\<not> finished st'" "timer_active st'"
    "set (characters st') = {(101, 1), (102, 2)}"
    "team (heap st' 2) = Some 2"
    "combat_handler (heap st' 2) = Some 7"
    "cmdset_combat (heap st' 2) = 1"
    "msgs (heap st' 2) = [Joined_combat, Combat_info (get_appearance st')]"
    "app_desc (get_appearance st') = ''duel''"
    "app_timeout (get_appearance st') = 5"
    "length (app_characters (get_appearance st')) = 2"
    "\<lparr>info_dbref = 101, info_name = ''fighter'', info_team = Some 1, info_max_hp = 10,
       info_hp = 10, info_icon = None\<rparr> \<in> set (app_characters (get_appearance st'))"
    "\<lparr>info_dbref = 102, info_name = ''fighter'', info_team = Some 2, info_max_hp = 10,
       info_hp = 10, info_icon = None\<rparr> \<in> set (app_characters (get_appearance st'))"
    by (auto simp: lobby_def newcomer_def)
  then show ?thesis using r d t by blast
qed

end
